theory Spec2Isabelle
  imports Main "HOL-Library.Sublist"
begin

section \<open>Strings as Python handles them\<close>

text \<open>
  Session labels, mapping keys and module codes are Python \<open>str\<close> values. They are modelled
  as \<open>string\<close>, a list of \<open>char\<close>, a \<open>char\<close> being the code point of a character, from 0
  to 255. On these code points \<open>str.isspace\<close> and the regular-expression class \<open>\s\<close> accept
  9 to 13, 28 to 32, 133 and 160; \<open>str.lower\<close> moves A to Z and the capitals 192 to 222
  other than the sign 215; \<open>str.upper\<close> moves a to z and the small letters 224 to 254 other
  than the sign 247, and writes SS for the letter 223. The capitals of the letters 181 and
  255 lie beyond 255: \<open>upper_char\<close> leaves these two alone, as it does every character that
  has no capital.
\<close>

definition is_space :: "char \<Rightarrow> bool" where
  "is_space c = (let n = (of_char c :: nat) in
     (9 \<le> n \<and> n \<le> 13) \<or> (28 \<le> n \<and> n \<le> 32) \<or> n = 133 \<or> n = 160)"

definition in_rng :: "char \<Rightarrow> char \<Rightarrow> char \<Rightarrow> bool" where
  "in_rng a b c = ((of_char a :: nat) \<le> of_char c \<and> (of_char c :: nat) \<le> of_char b)"

definition lower_char :: "char \<Rightarrow> char" where
  "lower_char c =
     (if in_rng CHR ''A'' CHR ''Z'' c \<or> (in_rng (CHR 0xC0) (CHR 0xDE) c \<and> c \<noteq> CHR 0xD7)
      then char_of (of_char c + 32 :: nat) else c)"

definition upper_char :: "char \<Rightarrow> char" where
  "upper_char c =
     (if in_rng CHR ''a'' CHR ''z'' c \<or> (in_rng (CHR 0xE0) (CHR 0xFE) c \<and> c \<noteq> CHR 0xF7)
      then char_of (of_char c - 32 :: nat) else c)"

definition str_lower :: "string \<Rightarrow> string" where
  "str_lower s = map lower_char s"

definition str_upper :: "string \<Rightarrow> string" where
  "str_upper s = concat (map (\<lambda>c. if c = CHR 0xDF then ''SS'' else [upper_char c]) s)"

text \<open>\<open>s.strip()\<close>: leading and trailing whitespace removed.\<close>

definition str_strip :: "string \<Rightarrow> string" where
  "str_strip s = rev (dropWhile is_space (rev (dropWhile is_space s)))"

text \<open>\<open>k in s\<close> on two strings: \<open>k\<close> occurs in \<open>s\<close> as a contiguous substring.\<close>

fun str_in :: "string \<Rightarrow> string \<Rightarrow> bool" where
  "str_in k [] = (k = [])"
| "str_in k (c # cs) = (prefix k (c # cs) \<or> str_in k cs)"

text \<open>\<open>s.replace(" ", "")\<close>.\<close>

definition remove_spaces :: "string \<Rightarrow> string" where
  "remove_spaces s = filter (\<lambda>c. c \<noteq> CHR '' '') s"

section \<open>The regular expressions of \<open>normalize_session_text\<close>\<close>

text \<open>
  The six patterns use single characters, ranges, \<open>\s\<close>, \<open>.\<close>, the repetitions \<open>*\<close> and \<open>+\<close>
  on one character class, \<open>?\<close>, alternation, concatenation and \<open>$\<close>. \<open>rx_match ic r s\<close>
  lists, in the order a backtracking matcher tries them, what is left of \<open>s\<close> after each way
  of matching \<open>r\<close> at its start; \<open>ic\<close> is the flag \<open>re.IGNORECASE\<close>, under which a literal
  and a range accept both cases of a letter. \<open>.\<close> accepts everything but a newline, and
  \<open>$\<close> holds at the end of the text and just before a newline that ends it.
\<close>

datatype cls = Ch char | Rng char char | Space | AnyChar

fun cls_match :: "bool \<Rightarrow> cls \<Rightarrow> char \<Rightarrow> bool" where
  "cls_match ic (Ch x) c = (if ic then lower_char c = lower_char x else c = x)"
| "cls_match ic (Rng a b) c =
     (in_rng a b c \<or> (ic \<and> (in_rng a b (lower_char c) \<or> in_rng a b (upper_char c))))"
| "cls_match ic Space c = is_space c"
| "cls_match ic AnyChar c = (c \<noteq> CHR 0x0A)"

datatype rx = Eps | One cls | Many cls | Many1 cls | Maybe rx | Then rx rx | Or rx rx | Dollar

text \<open>Greedy repetition: the longest run first, then each shorter one.\<close>

fun many :: "(char \<Rightarrow> bool) \<Rightarrow> string \<Rightarrow> string list" where
  "many p [] = [[]]"
| "many p (c # cs) = (if p c then many p cs @ [c # cs] else [c # cs])"

fun rx_match :: "bool \<Rightarrow> rx \<Rightarrow> string \<Rightarrow> string list" where
  "rx_match ic Eps s = [s]"
| "rx_match ic (One cl) s =
     (case s of [] \<Rightarrow> [] | c # cs \<Rightarrow> if cls_match ic cl c then [cs] else [])"
| "rx_match ic (Many cl) s = many (cls_match ic cl) s"
| "rx_match ic (Many1 cl) s =
     (case s of [] \<Rightarrow> [] | c # cs \<Rightarrow> if cls_match ic cl c then many (cls_match ic cl) cs else [])"
| "rx_match ic (Maybe r) s = rx_match ic r s @ [s]"
| "rx_match ic (Then r1 r2) s = concat (map (rx_match ic r2) (rx_match ic r1 s))"
| "rx_match ic (Or r1 r2) s = rx_match ic r1 s @ rx_match ic r2 s"
| "rx_match ic Dollar s = (if s = [] \<or> s = [CHR 0x0A] then [s] else [])"

definition lit :: "string \<Rightarrow> rx" where
  "lit w = foldr (\<lambda>c r. Then (One (Ch c)) r) w Eps"

definition seq :: "rx list \<Rightarrow> rx" where
  "seq rs = foldr Then rs Eps"

text \<open>
  \<open>re.sub(pattern, repl, text)\<close> for a pattern that matches no empty string (none of the six
  does): scanning from the left, the first position where the pattern matches is replaced,
  the match being the first one the backtracking order finds, and the scan goes on after it.
\<close>

function re_sub :: "bool \<Rightarrow> rx \<Rightarrow> string \<Rightarrow> string \<Rightarrow> string" where
  "re_sub ic r repl s =
     (case rx_match ic r s of
        rest # _ \<Rightarrow>
          if length rest < length s then repl @ re_sub ic r repl rest
          else (case s of [] \<Rightarrow> [] | c # cs \<Rightarrow> c # re_sub ic r repl cs)
      | [] \<Rightarrow> (case s of [] \<Rightarrow> [] | c # cs \<Rightarrow> c # re_sub ic r repl cs))"
  by pat_completeness auto
termination
  by (relation "measure (\<lambda>(ic, r, repl, s). length s)") auto

text \<open>\<open>(Ms|Mr|Dr|Prof|Professor)\<close> and \<open>(tutorial|practical|tute|prac|lab)\<close>.\<close>

definition titles :: rx where
  "titles = Or (lit ''Ms'') (Or (lit ''Mr'') (Or (lit ''Dr'') (Or (lit ''Prof'') (lit ''Professor''))))"

definition qualifiers :: rx where
  "qualifiers = Or (lit ''tutorial'') (Or (lit ''practical'') (Or (lit ''tute'')
     (Or (lit ''prac'') (lit ''lab''))))"

text \<open>\<open>\.?\s+[A-Z][a-z]+.*$\<close>, the tail the two instructor patterns share.\<close>

definition name_tail :: "rx list" where
  "name_tail = [Maybe (One (Ch CHR ''.'')), Many1 Space, One (Rng CHR ''A'' CHR ''Z''),
     Many1 (Rng CHR ''a'' CHR ''z''), Many AnyChar, Dollar]"

definition pat_dash_instructor :: rx where
  "pat_dash_instructor = seq ([Many Space, One (Ch CHR ''-''), Many Space, titles] @ name_tail)"

definition pat_instructor :: rx where
  "pat_instructor = seq ([Many1 Space, titles] @ name_tail)"

definition pat_dash_qualifier :: rx where
  "pat_dash_qualifier = seq [Many Space, One (Ch CHR ''-''), Many Space, qualifiers, Many Space, Dollar]"

definition pat_qualifier :: rx where
  "pat_qualifier = seq [Many1 Space, qualifiers, Many Space, Dollar]"

definition pat_trailing_dash :: rx where
  "pat_trailing_dash = seq [Many Space, One (Ch CHR ''-''), Many Space, Dollar]"

definition pat_spaces :: rx where
  "pat_spaces = Many1 Space"

section \<open>Normalization and classification\<close>

text \<open>
  A session label is a spreadsheet cell: a string, or missing (\<open>pd.isna\<close>), which is \<open>None\<close>
  here.
\<close>

type_synonym label = "string option"

definition remove_instructor :: "string \<Rightarrow> string" where
  "remove_instructor t = re_sub True pat_instructor [] (re_sub True pat_dash_instructor [] t)"

definition remove_qualifier :: "string \<Rightarrow> string" where
  "remove_qualifier t = re_sub True pat_qualifier [] (re_sub True pat_dash_qualifier [] t)"

definition clean_up :: "string \<Rightarrow> string" where
  "clean_up t = str_strip (re_sub False pat_spaces '' '' (re_sub False pat_trailing_dash [] t))"

definition normalize_session_text :: "label \<Rightarrow> string" where
  "normalize_session_text text =
     (case text of
        None \<Rightarrow> []
      | Some s \<Rightarrow> clean_up (remove_qualifier (remove_instructor (str_strip s))))"

definition exam_keywords :: "string list" where
  "exam_keywords = [''examination'', ''exam'', ''coursework'', ''viva'', ''cw'', ''course work'']"

definition is_exam_session :: "label \<Rightarrow> bool" where
  "is_exam_session text =
     (case text of
        None \<Rightarrow> False
      | Some s \<Rightarrow> list_ex (\<lambda>keyword. str_in keyword (str_lower s)) exam_keywords)"

definition placeholders :: "string list" where
  "placeholders = [''inauguration'', ''holiday'', ''break'', ''lunch'', ''nan'']"


section \<open>The mapping store\<close>

text \<open>
  The store is the Python dict read from \<open>module_mappings.json\<close>: keys in insertion order,
  each key once. It is an association list, first inserted first. \<open>normalized in mappings\<close>
  and \<open>mappings[normalized]\<close> are \<open>map_of\<close>; \<open>mappings[k] = v\<close> keeps the place of a key
  that is already there and appends a new one.
\<close>

type_synonym store = "(string \<times> string) list"

fun dict_set :: "store \<Rightarrow> string \<Rightarrow> string \<Rightarrow> store" where
  "dict_set [] k v = [(k, v)]"
| "dict_set ((k', v') # rest) k v =
     (if k' = k then (k, v) # rest else (k', v') # dict_set rest k v)"

datatype py_error = EOFError | JSONDecodeError | ValueError | IndexError | OverflowError

text \<open>
  The file \<open>module_mappings.json\<close>: not there, there with text that \<open>json.load\<close> rejects,
  or there with the JSON object that \<open>json.dump\<close> wrote for a store.
\<close>

datatype mapping_file = Absent | Corrupt | Holds store

text \<open>What the command-line program reads and writes: the lines typed at its prompts, and the file.\<close>

record world =
  stdin :: "string list"
  mapping_file :: mapping_file

definition save_module_mappings :: "store \<Rightarrow> world \<Rightarrow> world" where
  "save_module_mappings mappings w = w\<lparr>mapping_file := Holds mappings\<rparr>"

text \<open>
  \<open>load_module_mappings\<close> of NIBM.py catches \<open>FileNotFoundError\<close> only; the one of
  attendlessnibm.py tests \<open>os.path.exists\<close> and catches every \<open>Exception\<close>.
\<close>

definition load_module_mappings :: "mapping_file \<Rightarrow> py_error + store" where
  "load_module_mappings f =
     (case f of Absent \<Rightarrow> Inr [] | Corrupt \<Rightarrow> Inl JSONDecodeError | Holds m \<Rightarrow> Inr m)"

definition load_module_mappings_ui :: "mapping_file \<Rightarrow> py_error + store" where
  "load_module_mappings_ui f =
     (case f of Absent \<Rightarrow> Inr [] | Corrupt \<Rightarrow> Inr [] | Holds m \<Rightarrow> Inr m)"

section \<open>Resolving a session to a module code\<close>

text \<open>The test of the loop over \<open>mappings.items()\<close> in NIBM.py.\<close>

definition key_matches :: "string \<Rightarrow> string \<Rightarrow> bool" where
  "key_matches normalized key =
     (str_in (str_lower key) normalized \<or> str_in normalized (str_lower key))"

text \<open>The two tests of the same loop in attendlessnibm.py.\<close>

definition key_matches_ui :: "string \<Rightarrow> string \<Rightarrow> bool" where
  "key_matches_ui normalized key =
     (key_matches normalized key \<or>
      remove_spaces (str_lower key) = remove_spaces normalized)"

fun scan_keys :: "string \<Rightarrow> store \<Rightarrow> string option" where
  "scan_keys normalized [] = None"
| "scan_keys normalized ((key, code) # rest) =
     (if str_in (str_lower key) normalized \<or> str_in normalized (str_lower key) then Some code
      else scan_keys normalized rest)"

fun scan_keys_ui :: "string \<Rightarrow> store \<Rightarrow> string option" where
  "scan_keys_ui normalized [] = None"
| "scan_keys_ui normalized ((key, code) # rest) =
     (let key_lower = str_lower key in
      if str_in key_lower normalized \<or> str_in normalized key_lower then Some code
      else if remove_spaces key_lower = remove_spaces normalized then Some code
      else scan_keys_ui normalized rest)"

text \<open>
  The prompt loop of NIBM.py: \<open>input(...).strip().upper()\<close> until the answer is not empty.
  \<open>input\<close> raises \<open>EOFError\<close> when no line is left.
\<close>

fun ask_module_code :: "string list \<Rightarrow> py_error + (string \<times> string list)" where
  "ask_module_code [] = Inl EOFError"
| "ask_module_code (line # rest) =
     (let module_code = str_upper (str_strip line) in
      if module_code \<noteq> [] then Inr (module_code, rest) else ask_module_code rest)"

text \<open>\<open>mappings[normalized] = module_code; save_module_mappings(mappings)\<close>.\<close>

definition record_mapping :: "store \<Rightarrow> string \<Rightarrow> string \<Rightarrow> world \<Rightarrow> store \<times> world" where
  "record_mapping mappings key code w =
     (let mappings' = dict_set mappings key code in (mappings', save_module_mappings mappings' w))"

text \<open>
  \<open>get_module_code_for_session\<close> of NIBM.py. It returns the code (\<open>None\<close> for a session
  that is skipped), the store, which it may have extended, and the world.
\<close>

definition get_module_code_for_session ::
  "label \<Rightarrow> store \<Rightarrow> world \<Rightarrow> py_error + (string option \<times> store \<times> world)" where
  "get_module_code_for_session session_text mappings w =
     (if is_exam_session session_text then Inr (Some ''EXAM'', mappings, w)
      else
        let normalized = str_lower (normalize_session_text session_text) in
        if normalized = [] \<or> normalized \<in> set placeholders then Inr (None, mappings, w)
        else
          (case map_of mappings normalized of
             Some code \<Rightarrow> Inr (Some code, mappings, w)
           | None \<Rightarrow>
               (case scan_keys normalized mappings of
                  Some code \<Rightarrow> Inr (Some code, mappings, w)
                | None \<Rightarrow>
                    (case ask_module_code (stdin w) of
                       Inl e \<Rightarrow> Inl e
                     | Inr (module_code, rest) \<Rightarrow>
                         (let (mappings', w') =
                                record_mapping mappings normalized module_code (w\<lparr>stdin := rest\<rparr>)
                          in Inr (Some module_code, mappings', w'))))))"

text \<open>\<open>get_module_code_for_session\<close> of attendlessnibm.py: no prompt, \<open>None\<close> when nothing matches.\<close>

definition get_module_code_for_session_ui :: "label \<Rightarrow> store \<Rightarrow> string option" where
  "get_module_code_for_session_ui session_text mappings =
     (if is_exam_session session_text then Some ''EXAM''
      else
        let normalized = str_lower (normalize_session_text session_text) in
        if normalized = [] \<or> normalized \<in> set placeholders then None
        else
          (case map_of mappings normalized of
             Some code \<Rightarrow> Some code
           | None \<Rightarrow> scan_keys_ui normalized mappings))"

section \<open>The schedule table\<close>

text \<open>
  A cell of the parsed sheet: missing (\<open>pd.isna\<close>), a string, or another scalar (a number,
  a boolean, a timestamp), of which the program uses the truth value and the text \<open>str\<close>
  gives. A frame has its column labels and its rows in source order, a row holding one
  cell for each column.
\<close>

datatype cell = NaN | Text string | Scalar bool string

record frame =
  columns :: "string list"
  rows :: "cell list list"

definition cell_truthy :: "cell \<Rightarrow> bool" where
  "cell_truthy c = (case c of NaN \<Rightarrow> True | Text s \<Rightarrow> s \<noteq> [] | Scalar b _ \<Rightarrow> b)"

definition cell_str :: "cell \<Rightarrow> string" where
  "cell_str c = (case c of NaN \<Rightarrow> ''nan'' | Text s \<Rightarrow> s | Scalar _ s \<Rightarrow> s)"

definition digit_char :: "nat \<Rightarrow> char" where
  "digit_char d = char_of (48 + d)"

text \<open>\<open>str(i)\<close> for \<open>i\<close> in \<open>range(...)\<close>, as the f-string \<open>Extra_{i}\<close> needs it.\<close>

function str_of_nat :: "nat \<Rightarrow> string" where
  "str_of_nat n =
     (if n < 10 then [digit_char n] else str_of_nat (n div 10) @ [digit_char (n mod 10)])"
  by pat_completeness auto
termination
  by (relation "measure (\<lambda>n. n)") auto

text \<open>The cell of a row in the column Date, the first one.\<close>

definition date_cell :: "cell list \<Rightarrow> cell" where
  "date_cell row = (case row of [] \<Rightarrow> NaN | c # _ \<Rightarrow> c)"

definition renamed_columns :: "nat \<Rightarrow> string list" where
  "renamed_columns n =
     [''Date'', ''Morning'', ''Afternoon''] @ map (\<lambda>i. ''Extra_'' @ str_of_nat i) [0 ..< n - 3]"

text \<open>\<open>df.dropna(subset=["Date"])\<close>.\<close>

definition dropna_date :: "cell list list \<Rightarrow> cell list list" where
  "dropna_date rs = filter (\<lambda>row. date_cell row \<noteq> NaN) rs"

text \<open>
  The statements of \<open>load_schedule\<close> inside \<open>try\<close>, from the parsed first sheet on.
  \<open>df.iloc[0]\<close> raises \<open>IndexError\<close> on a frame without rows.
\<close>

definition load_schedule_body :: "frame \<Rightarrow> py_error + frame" where
  "load_schedule_body df =
     (if length (columns df) < 3 then Inl ValueError
      else
        let df1 = df\<lparr>columns := renamed_columns (length (columns df))\<rparr>;
            df2 = df1\<lparr>rows := dropna_date (rows df1)\<rparr>
        in (case rows df2 of
              [] \<Rightarrow> Inl IndexError
            | first # others \<Rightarrow>
                if cell_truthy (date_cell first)
                   \<and> str_lower (cell_str (date_cell first)) \<in> set [''date'', ''day'']
                then Inr (df2\<lparr>rows := others\<rparr>)
                else Inr df2))"

text \<open>\<open>except Exception\<close>: the error is printed and \<open>None\<close> returned.\<close>

definition load_schedule :: "frame \<Rightarrow> frame option" where
  "load_schedule df = (case load_schedule_body df of Inl e \<Rightarrow> None | Inr t \<Rightarrow> Some t)"

section \<open>Holiday allowance\<close>










section \<open>The scan over the stored keys\<close>

text \<open>
  The loop over \<open>mappings.items()\<close> returns the code of the first key, in the order of the
  store, that passes its test; when it returns a code, that code is stored under a key that
  passes the test.
\<close>

lemma scan_keys_first:
  "i < length m \<Longrightarrow> key_matches n (fst (m ! i)) \<Longrightarrow> (\<forall>j<i. \<not> key_matches n (fst (m ! j)))
   \<Longrightarrow> scan_keys n m = Some (snd (m ! i))"
proof (induction m arbitrary: i)
  case Nil
  then show ?case by simp
next
  case (Cons p m)
  obtain k c where p: "p = (k, c)" by (cases p)
  show ?case
  proof (cases i)
    case 0
    with Cons.prems p show ?thesis by (simp add: key_matches_def)
  next
    case (Suc i')
    from Cons.prems Suc have "\<not> key_matches n (fst ((p # m) ! 0))" by blast
    then have nk: "\<not> key_matches n k" using p by simp
    have "\<forall>j<i'. \<not> key_matches n (fst (m ! j))"
    proof (intro allI impI)
      fix j assume "j < i'"
      then have "Suc j < i" using Suc by simp
      with Cons.prems have "\<not> key_matches n (fst ((p # m) ! Suc j))" by blast
      then show "\<not> key_matches n (fst (m ! j))" by simp
    qed
    with Cons.IH[of i'] Cons.prems Suc have "scan_keys n m = Some (snd (m ! i'))" by simp
    with nk p Suc show ?thesis by (simp add: key_matches_def)
  qed
qed

lemma scan_keys_ui_first:
  "i < length m \<Longrightarrow> key_matches_ui n (fst (m ! i)) \<Longrightarrow> (\<forall>j<i. \<not> key_matches_ui n (fst (m ! j)))
   \<Longrightarrow> scan_keys_ui n m = Some (snd (m ! i))"
proof (induction m arbitrary: i)
  case Nil
  then show ?case by simp
next
  case (Cons p m)
  obtain k c where p: "p = (k, c)" by (cases p)
  show ?case
  proof (cases i)
    case 0
    with Cons.prems p show ?thesis by (auto simp add: key_matches_ui_def key_matches_def Let_def)
  next
    case (Suc i')
    from Cons.prems Suc have "\<not> key_matches_ui n (fst ((p # m) ! 0))" by blast
    then have nk: "\<not> key_matches_ui n k" using p by simp
    have "\<forall>j<i'. \<not> key_matches_ui n (fst (m ! j))"
    proof (intro allI impI)
      fix j assume "j < i'"
      then have "Suc j < i" using Suc by simp
      with Cons.prems have "\<not> key_matches_ui n (fst ((p # m) ! Suc j))" by blast
      then show "\<not> key_matches_ui n (fst (m ! j))" by simp
    qed
    with Cons.IH[of i'] Cons.prems Suc have "scan_keys_ui n m = Some (snd (m ! i'))" by simp
    with nk p Suc show ?thesis by (simp add: key_matches_ui_def key_matches_def Let_def)
  qed
qed

lemma scan_keys_Some:
  "scan_keys n m = Some c \<Longrightarrow> \<exists>k. (k, c) \<in> set m \<and> key_matches n k"
  by (induction n m rule: scan_keys.induct) (auto simp: key_matches_def split: if_splits)

lemma scan_keys_ui_Some:
  "scan_keys_ui n m = Some c \<Longrightarrow> \<exists>k. (k, c) \<in> set m \<and> key_matches_ui n k"
  by (induction n m rule: scan_keys_ui.induct)
     (auto simp: key_matches_ui_def key_matches_def Let_def split: if_splits)

lemma scan_keys_ui_None:
  "scan_keys_ui n m = None \<Longrightarrow> (k, c) \<in> set m \<Longrightarrow> \<not> key_matches_ui n k"
  by (induction n m rule: scan_keys_ui.induct)
     (auto simp: key_matches_ui_def key_matches_def Let_def split: if_splits)

lemma map_of_dict_set: "map_of (dict_set m k v) k = Some v"
  by (induction m k v rule: dict_set.induct) auto

lemma is_exam_session_Some:
  "is_exam_session (Some s) =
     (str_in ''examination'' (str_lower s) \<or> str_in ''exam'' (str_lower s) \<or>
      str_in ''coursework'' (str_lower s) \<or> str_in ''viva'' (str_lower s) \<or>
      str_in ''cw'' (str_lower s) \<or> str_in ''course work'' (str_lower s))"
  by (simp add: is_exam_session_def exam_keywords_def)

lemma first_index:
  fixes i0 :: nat
  assumes "Q i0"
  shows "\<exists>i\<le>i0. Q i \<and> (\<forall>j<i. \<not> Q j)"
proof -
  define i where "i = (LEAST i. Q i)"
  have a: "Q i" unfolding i_def using assms by (rule LeastI)
  have b: "i \<le> i0" unfolding i_def using assms by (rule Least_le)
  have c: "\<forall>j<i. \<not> Q j" unfolding i_def using not_less_Least by blast
  from a b c show ?thesis by blast
qed

lemma scan_keys_iff:
  "scan_keys n m = Some c \<longleftrightarrow>
     (\<exists>i<length m. key_matches n (fst (m ! i)) \<and> (\<forall>j<i. \<not> key_matches n (fst (m ! j)))
        \<and> snd (m ! i) = c)"
proof
  assume a: "scan_keys n m = Some c"
  from scan_keys_Some[OF a] obtain k where k: "(k, c) \<in> set m" "key_matches n k" by blast
  from k(1) obtain i0 where i0: "i0 < length m" "m ! i0 = (k, c)" by (auto simp: in_set_conv_nth)
  from i0 k(2) have "key_matches n (fst (m ! i0))" by simp
  from first_index[of "\<lambda>i. key_matches n (fst (m ! i))", OF this]
  obtain i where i: "i \<le> i0" "key_matches n (fst (m ! i))" "\<forall>j<i. \<not> key_matches n (fst (m ! j))"
    by blast
  from i(1) i0(1) have il: "i < length m" by simp
  from scan_keys_first[OF il i(2) i(3)] a have "snd (m ! i) = c" by simp
  with il i show "\<exists>i<length m. key_matches n (fst (m ! i)) \<and> (\<forall>j<i. \<not> key_matches n (fst (m ! j)))
        \<and> snd (m ! i) = c" by blast
next
  assume "\<exists>i<length m. key_matches n (fst (m ! i)) \<and> (\<forall>j<i. \<not> key_matches n (fst (m ! j)))
        \<and> snd (m ! i) = c"
  then obtain i where "i < length m" "key_matches n (fst (m ! i))"
    "\<forall>j<i. \<not> key_matches n (fst (m ! j))" "snd (m ! i) = c" by blast
  then show "scan_keys n m = Some c" using scan_keys_first[of i m n] by simp
qed

lemma scan_keys_ui_iff:
  "scan_keys_ui n m = Some c \<longleftrightarrow>
     (\<exists>i<length m. key_matches_ui n (fst (m ! i)) \<and> (\<forall>j<i. \<not> key_matches_ui n (fst (m ! j)))
        \<and> snd (m ! i) = c)"
proof
  assume a: "scan_keys_ui n m = Some c"
  from scan_keys_ui_Some[OF a] obtain k where k: "(k, c) \<in> set m" "key_matches_ui n k" by blast
  from k(1) obtain i0 where i0: "i0 < length m" "m ! i0 = (k, c)" by (auto simp: in_set_conv_nth)
  from i0 k(2) have "key_matches_ui n (fst (m ! i0))" by simp
  from first_index[of "\<lambda>i. key_matches_ui n (fst (m ! i))", OF this]
  obtain i where i: "i \<le> i0" "key_matches_ui n (fst (m ! i))"
    "\<forall>j<i. \<not> key_matches_ui n (fst (m ! j))"
    by blast
  from i(1) i0(1) have il: "i < length m" by simp
  from scan_keys_ui_first[OF il i(2) i(3)] a have "snd (m ! i) = c" by simp
  with il i show "\<exists>i<length m. key_matches_ui n (fst (m ! i))
        \<and> (\<forall>j<i. \<not> key_matches_ui n (fst (m ! j))) \<and> snd (m ! i) = c" by blast
next
  assume "\<exists>i<length m. key_matches_ui n (fst (m ! i)) \<and> (\<forall>j<i. \<not> key_matches_ui n (fst (m ! j)))
        \<and> snd (m ! i) = c"
  then obtain i where "i < length m" "key_matches_ui n (fst (m ! i))"
    "\<forall>j<i. \<not> key_matches_ui n (fst (m ! j))" "snd (m ! i) = c" by blast
  then show "scan_keys_ui n m = Some c" using scan_keys_ui_first[of i m n] by simp
qed

lemma get_module_code_for_session_ui_scan:
  assumes "\<not> is_exam_session l" and "n = str_lower (normalize_session_text l)"
    and "n \<noteq> []" and "n \<notin> set placeholders" and "map_of m n = None"
  shows "get_module_code_for_session_ui l m = scan_keys_ui n m"
  using assms by (simp add: get_module_code_for_session_ui_def)

lemma get_module_code_for_session_scan:
  assumes "\<not> is_exam_session l" and "n = str_lower (normalize_session_text l)"
    and "n \<noteq> []" and "n \<notin> set placeholders" and "map_of m n = None"
    and "scan_keys n m = Some c"
  shows "get_module_code_for_session l m w = Inr (Some c, m, w)"
  using assms by (simp add: get_module_code_for_session_def)

section \<open>Rounding to 53 bits\<close>














section \<open>Loading the schedule\<close>

text \<open>
  With fewer than three columns \<open>load_schedule\<close> raises \<open>ValueError\<close> and returns \<open>None\<close>.
  With three or more and at least one row that has a date, it returns the frame with the
  columns renamed and the rows that have a date, without the first of them when its date
  cell reads date or day in any case. With no row that has a date, \<open>df.iloc[0]\<close> raises
  \<open>IndexError\<close> and \<open>None\<close> is returned.
\<close>

lemma load_schedule_dated:
  assumes "3 \<le> length (columns df)" and "dropna_date (rows df) = first # others"
  shows "load_schedule df =
           Some \<lparr>columns = renamed_columns (length (columns df)),
                 rows = (if cell_truthy (date_cell first)
                            \<and> str_lower (cell_str (date_cell first)) \<in> {''date'', ''day''}
                         then others else first # others)\<rparr>"
  using assms by (simp add: load_schedule_def load_schedule_body_def Let_def)

lemma load_schedule_narrow:
  assumes "length (columns df) < 3"
  shows "load_schedule_body df = Inl ValueError" and "load_schedule df = None"
  using assms by (simp_all add: load_schedule_def load_schedule_body_def)

lemma load_schedule_undated:
  assumes "3 \<le> length (columns df)" and "dropna_date (rows df) = []"
  shows "load_schedule_body df = Inl IndexError" and "load_schedule df = None"
  using assms by (simp_all add: load_schedule_def load_schedule_body_def Let_def)

section \<open>Whitespace in a normalized text\<close>

text \<open>
  The last two steps of \<open>normalize_session_text\<close> replace each run of whitespace by one
  space and strip the ends. The substitution never lengthens a text, applying it twice is
  applying it once, and a text it leaves alone stays so when its ends are stripped.
\<close>

declare re_sub.simps [simp del]

lemma many_hd: "many p s \<noteq> [] \<and> hd (many p s) = dropWhile p s"
  by (induction s) auto

lemma many_cases: "\<exists>rest. many p s = dropWhile p s # rest"
  using many_hd[of p s] by (cases "many p s") auto

lemma length_dropWhile_Cons: "length (dropWhile p cs) < length (c # cs)"
  using length_dropWhile_le[of p cs] by simp

lemma collapse_Nil: "re_sub False pat_spaces r [] = []"
  by (subst re_sub.simps) (simp add: pat_spaces_def)

lemma collapse_space:
  assumes "is_space c"
  shows "re_sub False pat_spaces r (c # cs) = r @ re_sub False pat_spaces r (dropWhile is_space cs)"
proof -
  have e: "cls_match False Space = is_space" by (rule ext) simp
  obtain rest where m: "many (cls_match False Space) cs = dropWhile is_space cs # rest"
    using many_cases[of is_space cs] unfolding e by blast
  have l: "length (dropWhile is_space cs) < length (c # cs)" by (rule length_dropWhile_Cons)
  show ?thesis
    using assms m l by (subst re_sub.simps) (simp add: pat_spaces_def)
qed

lemma collapse_other:
  assumes "\<not> is_space c"
  shows "re_sub False pat_spaces r (c # cs) = c # re_sub False pat_spaces r cs"
  using assms by (subst re_sub.simps) (simp add: pat_spaces_def)


lemma is_space_space: "is_space CHR '' ''"
  by (simp add: is_space_def)

lemma collapse_length: "length (re_sub False pat_spaces '' '' s) \<le> length s"
proof (induction "length s" arbitrary: s rule: less_induct)
  case less
  show ?case
  proof (cases s)
    case Nil
    then show ?thesis by (simp add: collapse_Nil)
  next
    case (Cons c cs)
    show ?thesis
    proof (cases "is_space c")
      case True
      have "length (dropWhile is_space cs) < length s"
        using Cons length_dropWhile_le[of is_space cs] by simp
      from less[OF this] length_dropWhile_le[of is_space cs]
      show ?thesis using Cons True by (simp add: collapse_space)
    next
      case False
      have "length cs < length s" using Cons by simp
      from less[OF this] show ?thesis using Cons False by (simp add: collapse_other)
    qed
  qed
qed

lemma dropWhile_length_id:
  assumes "length (dropWhile p s) = length s"
  shows "dropWhile p s = s"
proof (cases s)
  case Nil
  then show ?thesis by simp
next
  case (Cons a l)
  show ?thesis
  proof (cases "p a")
    case True
    with Cons assms have "length (dropWhile p l) = Suc (length l)" by simp
    with length_dropWhile_le[of p l] show ?thesis by simp
  next
    case False
    with Cons show ?thesis by simp
  qed
qed

lemma dropWhile_id_iff: "dropWhile p s = s \<longleftrightarrow> (s = [] \<or> \<not> p (hd s))"
proof (cases s)
  case Nil
  then show ?thesis by simp
next
  case (Cons a l)
  show ?thesis
  proof (cases "p a")
    case True
    have "dropWhile p l \<noteq> a # l"
    proof
      assume "dropWhile p l = a # l"
      then have "length (dropWhile p l) = Suc (length l)" by simp
      with length_dropWhile_le[of p l] show False by simp
    qed
    with Cons True show ?thesis by simp
  next
    case False
    with Cons show ?thesis by simp
  qed
qed

lemma collapse_fix_Cons_space:
  assumes "is_space c" and "re_sub False pat_spaces '' '' (c # cs) = c # cs"
  shows "c = CHR '' '' \<and> dropWhile is_space cs = cs \<and> re_sub False pat_spaces '' '' cs = cs"
proof -
  define w where "w = dropWhile is_space cs"
  define t where "t = re_sub False pat_spaces '' '' w"
  have "re_sub False pat_spaces '' '' (c # cs) = '' '' @ t"
    unfolding t_def w_def using assms(1) by (rule collapse_space)
  with assms(2) have e: "CHR '' '' # t = c # cs" by simp
  then have c: "c = CHR '' ''" and r: "t = cs" by simp_all
  have "length cs \<le> length w" using collapse_length[of w] r t_def by simp
  with length_dropWhile_le[of is_space cs] have "length w = length cs" by (simp add: w_def)
  then have d: "w = cs" unfolding w_def by (rule dropWhile_length_id)
  from r d have "re_sub False pat_spaces '' '' cs = cs" by (simp add: t_def)
  with c d show ?thesis by (simp add: w_def)
qed

lemma collapse_fix_Cons_other:
  assumes "\<not> is_space c" and "re_sub False pat_spaces '' '' (c # cs) = c # cs"
  shows "re_sub False pat_spaces '' '' cs = cs"
  using assms by (simp add: collapse_other)

lemma collapse_fix_suffix:
  "re_sub False pat_spaces '' '' (a @ b) = a @ b \<Longrightarrow> re_sub False pat_spaces '' '' b = b"
proof (induction a)
  case Nil
  then show ?case by simp
next
  case (Cons c a)
  have "re_sub False pat_spaces '' '' (a @ b) = a @ b"
  proof (cases "is_space c")
    case True
    from collapse_fix_Cons_space[OF True, of "a @ b"] Cons.prems show ?thesis by simp
  next
    case False
    from collapse_fix_Cons_other[OF False, of "a @ b"] Cons.prems show ?thesis by simp
  qed
  then show ?case by (rule Cons.IH)
qed

lemma collapse_fix_prefix:
  "re_sub False pat_spaces '' '' (a @ b) = a @ b \<Longrightarrow> re_sub False pat_spaces '' '' a = a"
proof (induction a)
  case Nil
  then show ?case by (simp add: collapse_Nil)
next
  case (Cons c a)
  show ?case
  proof (cases "is_space c")
    case True
    from collapse_fix_Cons_space[OF True, of "a @ b"] Cons.prems
    have c: "c = CHR '' ''" and d: "dropWhile is_space (a @ b) = a @ b"
      and f: "re_sub False pat_spaces '' '' (a @ b) = a @ b" by simp_all
    from f have ia: "re_sub False pat_spaces '' '' a = a" by (rule Cons.IH)
    have da: "dropWhile is_space a = a"
    proof (cases a)
      case Nil
      then show ?thesis by simp
    next
      case (Cons x xs)
      from d dropWhile_id_iff[of is_space "a @ b"]
      have "a @ b = [] \<or> \<not> is_space (hd (a @ b))" by blast
      with Cons have "\<not> is_space x" by simp
      with Cons show ?thesis by simp
    qed
    show ?thesis using True c ia da by (simp add: collapse_space)
  next
    case False
    from collapse_fix_Cons_other[OF False, of "a @ b"] Cons.prems
    have "re_sub False pat_spaces '' '' (a @ b) = a @ b" by simp
    then have "re_sub False pat_spaces '' '' a = a" by (rule Cons.IH)
    with False show ?thesis by (simp add: collapse_other)
  qed
qed

lemma collapse_dropWhile:
  assumes "s = [] \<or> \<not> is_space (hd s)"
  shows "dropWhile is_space (re_sub False pat_spaces '' '' s) = re_sub False pat_spaces '' '' s"
proof (cases s)
  case Nil
  then show ?thesis by (simp add: collapse_Nil)
next
  case (Cons c cs)
  with assms have "\<not> is_space c" by simp
  with Cons show ?thesis by (simp add: collapse_other)
qed

lemma collapse_idem:
  "re_sub False pat_spaces '' '' (re_sub False pat_spaces '' '' s) = re_sub False pat_spaces '' '' s"
proof (induction "length s" arbitrary: s rule: less_induct)
  case less
  show ?case
  proof (cases s)
    case Nil
    then show ?thesis by (simp add: collapse_Nil)
  next
    case (Cons c cs)
    show ?thesis
    proof (cases "is_space c")
      case True
      define w where "w = dropWhile is_space cs"
      have lw: "length w < length s"
        using Cons length_dropWhile_le[of is_space cs] by (simp add: w_def)
      have hw: "w = [] \<or> \<not> is_space (hd w)"
        unfolding w_def using hd_dropWhile[of is_space cs] by blast
      have e: "re_sub False pat_spaces '' '' s = CHR '' '' # re_sub False pat_spaces '' '' w"
        using Cons True by (simp add: collapse_space w_def)
      have "re_sub False pat_spaces '' '' (CHR '' '' # re_sub False pat_spaces '' '' w)
              = '' '' @ re_sub False pat_spaces '' ''
                  (dropWhile is_space (re_sub False pat_spaces '' '' w))"
        using is_space_space by (rule collapse_space)
      also have "\<dots> = CHR '' '' # re_sub False pat_spaces '' '' (re_sub False pat_spaces '' '' w)"
        using collapse_dropWhile[OF hw] by simp
      also have "\<dots> = CHR '' '' # re_sub False pat_spaces '' '' w"
        using less[OF lw] by simp
      finally show ?thesis using e by simp
    next
      case False
      have "length cs < length s" using Cons by simp
      from less[OF this] show ?thesis using Cons False by (simp add: collapse_other)
    qed
  qed
qed

lemma str_strip_collapse_fix:
  assumes "re_sub False pat_spaces '' '' v = v"
  shows "re_sub False pat_spaces '' '' (str_strip v) = str_strip v"
proof -
  define u where "u = dropWhile is_space v"
  have "v = takeWhile is_space v @ u" by (simp add: u_def)
  with assms have "re_sub False pat_spaces '' '' (takeWhile is_space v @ u) = takeWhile is_space v @ u"
    by simp
  then have fu: "re_sub False pat_spaces '' '' u = u" by (rule collapse_fix_suffix)
  have "rev u = takeWhile is_space (rev u) @ dropWhile is_space (rev u)" by simp
  then have "rev (rev u) = rev (takeWhile is_space (rev u) @ dropWhile is_space (rev u))" by simp
  then have "u = rev (dropWhile is_space (rev u)) @ rev (takeWhile is_space (rev u))"
    by (simp only: rev_rev_ident rev_append)
  then have "u = str_strip v @ rev (takeWhile is_space (rev u))" by (simp add: str_strip_def u_def)
  with fu have "re_sub False pat_spaces '' '' (str_strip v @ rev (takeWhile is_space (rev u)))
                  = str_strip v @ rev (takeWhile is_space (rev u))" by simp
  then show ?thesis by (rule collapse_fix_prefix)
qed

lemma str_strip_idem: "str_strip (str_strip w) = str_strip w"
proof -
  define u where "u = dropWhile is_space w"
  define t where "t = rev (dropWhile is_space (rev u))"
  have st: "str_strip w = t" by (simp add: str_strip_def t_def u_def)
  have ut: "u = t @ rev (takeWhile is_space (rev u))"
  proof -
    have "rev u = takeWhile is_space (rev u) @ dropWhile is_space (rev u)" by simp
    then have "rev (rev u) = rev (takeWhile is_space (rev u) @ dropWhile is_space (rev u))"
      by simp
    then show ?thesis by (simp only: rev_rev_ident rev_append t_def)
  qed
  have d: "dropWhile is_space t = t"
  proof (cases t)
    case Nil
    then show ?thesis by simp
  next
    case (Cons x xs)
    from ut obtain r where "u = t @ r" by blast
    with Cons have ux: "u = x # (xs @ r)" by simp
    then have un: "u \<noteq> []" and hu: "hd u = x" by simp_all
    from un have "\<not> is_space (hd u)" unfolding u_def by (rule hd_dropWhile)
    with hu Cons show ?thesis by simp
  qed
  have "rev t = dropWhile is_space (rev u)" by (simp add: t_def)
  then have "dropWhile is_space (rev t) = rev t" by simp
  with d have "str_strip t = t" by (simp add: str_strip_def)
  with st show ?thesis by simp
qed

lemma str_strip_length: "length (str_strip w) \<le> length w"
proof -
  have "length (str_strip w) \<le> length (dropWhile is_space w)"
    unfolding str_strip_def using length_dropWhile_le[of is_space "rev (dropWhile is_space w)"]
    by simp
  with length_dropWhile_le[of is_space w] show ?thesis by simp
qed

lemma re_sub_del_length: "length (re_sub ic r [] s) \<le> length s"
proof (induction "length s" arbitrary: s rule: less_induct)
  case less
  show ?case
  proof (cases "\<exists>rest more. rx_match ic r s = rest # more \<and> length rest < length s")
    case True
    then obtain rest more where m: "rx_match ic r s = rest # more" and l: "length rest < length s"
      by blast
    have "re_sub ic r [] s = re_sub ic r [] rest"
      using m l by (subst re_sub.simps) simp
    with less[OF l] l show ?thesis by simp
  next
    case False
    show ?thesis
    proof (cases s)
      case Nil
      then show ?thesis by (subst re_sub.simps) (simp split: list.splits)
    next
      case (Cons c cs)
      have e: "re_sub ic r [] s = c # re_sub ic r [] cs"
        using False Cons by (subst re_sub.simps) (auto split: list.splits)
      have "length cs < length s" using Cons by simp
      from less[OF this] e Cons show ?thesis by simp
    qed
  qed
qed

lemma re_sub_del_id: "length (re_sub ic r [] s) = length s \<Longrightarrow> re_sub ic r [] s = s"
proof (induction s)
  case Nil
  then show ?case by simp
next
  case (Cons c cs)
  show ?case
  proof (cases "\<exists>rest more. rx_match ic r (c # cs) = rest # more \<and> length rest < length (c # cs)")
    case True
    then obtain rest more where m: "rx_match ic r (c # cs) = rest # more"
      and l: "length rest < length (c # cs)" by blast
    have "re_sub ic r [] (c # cs) = re_sub ic r [] rest"
      using m l by (subst re_sub.simps) simp
    with re_sub_del_length[of ic r rest] l Cons.prems show ?thesis by simp
  next
    case False
    have e: "re_sub ic r [] (c # cs) = c # re_sub ic r [] cs"
      using False by (subst re_sub.simps) (auto split: list.splits)
    with Cons.prems have "length (re_sub ic r [] cs) = length cs" by simp
    then have "re_sub ic r [] cs = cs" by (rule Cons.IH)
    with e show ?thesis by simp
  qed
qed

lemma remove_instructor_length: "length (remove_instructor t) \<le> length t"
  unfolding remove_instructor_def
  using re_sub_del_length[of True pat_instructor "re_sub True pat_dash_instructor [] t"]
    re_sub_del_length[of True pat_dash_instructor t] by simp

lemma remove_instructor_id:
  assumes "length (remove_instructor t) = length t"
  shows "remove_instructor t = t"
proof -
  let ?a = "re_sub True pat_dash_instructor [] t"
  have "length (re_sub True pat_instructor [] ?a) \<le> length ?a" by (rule re_sub_del_length)
  moreover have "length ?a \<le> length t" by (rule re_sub_del_length)
  ultimately have l1: "length ?a = length t"
    and l2: "length (re_sub True pat_instructor [] ?a) = length ?a"
    using assms by (simp_all add: remove_instructor_def)
  from l1 have a: "?a = t" by (rule re_sub_del_id)
  from l2 have "re_sub True pat_instructor [] ?a = ?a" by (rule re_sub_del_id)
  with a show ?thesis by (simp add: remove_instructor_def)
qed

lemma remove_qualifier_length: "length (remove_qualifier t) \<le> length t"
  unfolding remove_qualifier_def
  using re_sub_del_length[of True pat_qualifier "re_sub True pat_dash_qualifier [] t"]
    re_sub_del_length[of True pat_dash_qualifier t] by simp

lemma remove_qualifier_id:
  assumes "length (remove_qualifier t) = length t"
  shows "remove_qualifier t = t"
proof -
  let ?a = "re_sub True pat_dash_qualifier [] t"
  have "length (re_sub True pat_qualifier [] ?a) \<le> length ?a" by (rule re_sub_del_length)
  moreover have "length ?a \<le> length t" by (rule re_sub_del_length)
  ultimately have l1: "length ?a = length t"
    and l2: "length (re_sub True pat_qualifier [] ?a) = length ?a"
    using assms by (simp_all add: remove_qualifier_def)
  from l1 have a: "?a = t" by (rule re_sub_del_id)
  from l2 have "re_sub True pat_qualifier [] ?a = ?a" by (rule re_sub_del_id)
  with a show ?thesis by (simp add: remove_qualifier_def)
qed

lemma normalize_tidy:
  "str_strip (normalize_session_text x) = normalize_session_text x
   \<and> re_sub False pat_spaces '' '' (normalize_session_text x) = normalize_session_text x"
proof (cases x)
  case None
  then show ?thesis by (simp add: normalize_session_text_def str_strip_def collapse_Nil)
next
  case (Some s)
  define z where "z = re_sub False pat_trailing_dash [] (remove_qualifier (remove_instructor (str_strip s)))"
  have y: "normalize_session_text x = str_strip (re_sub False pat_spaces '' '' z)"
    using Some by (simp add: normalize_session_text_def clean_up_def z_def)
  have "re_sub False pat_spaces '' '' (str_strip (re_sub False pat_spaces '' '' z))
          = str_strip (re_sub False pat_spaces '' '' z)"
    using collapse_idem[of z] by (rule str_strip_collapse_fix)
  with y show ?thesis by (simp add: str_strip_idem)
qed

section \<open>Classification\<close>

text \<open>
  Claim C1. A label whose lowercased text contains one of examination, exam, coursework,
  viva, cw, course work is classified EXAM by both programs, whatever the store holds
  (even an exact key for the label): the test is made on the raw label, before anything else.
  The command-line program leaves store and world as they were.
\<close>

theorem exam_label_is_exam:
  assumes "str_in ''examination'' (str_lower s) \<or> str_in ''exam'' (str_lower s) \<or>
      str_in ''coursework'' (str_lower s) \<or> str_in ''viva'' (str_lower s) \<or>
      str_in ''cw'' (str_lower s) \<or> str_in ''course work'' (str_lower s)"
  shows "get_module_code_for_session (Some s) mappings w = Inr (Some ''EXAM'', mappings, w)
       \<and> get_module_code_for_session_ui (Some s) mappings = Some ''EXAM''"
proof -
  from assms have "is_exam_session (Some s)" by (simp only: is_exam_session_Some)
  then show ?thesis
    by (simp add: get_module_code_for_session_def get_module_code_for_session_ui_def)
qed

text \<open>C1 at the label \<open>DSA Final Exam\<close>, with a store that has an exact key for it.\<close>

theorem exam_label_is_exam_witness:
  "str_in ''exam'' (str_lower ''DSA Final Exam'')
   \<and> get_module_code_for_session (Some ''DSA Final Exam'') [(''dsa final exam'', ''DSA'')]
        \<lparr>stdin = [], mapping_file = Absent\<rparr>
      = Inr (Some ''EXAM'', [(''dsa final exam'', ''DSA'')], \<lparr>stdin = [], mapping_file = Absent\<rparr>)
   \<and> get_module_code_for_session_ui (Some ''DSA Final Exam'') [(''dsa final exam'', ''DSA'')]
      = Some ''EXAM''"
proof -
  have h: "str_in ''exam'' (str_lower ''DSA Final Exam'')" by code_simp
  then have "str_in ''examination'' (str_lower ''DSA Final Exam'') \<or> str_in ''exam'' (str_lower ''DSA Final Exam'') \<or>
      str_in ''coursework'' (str_lower ''DSA Final Exam'') \<or> str_in ''viva'' (str_lower ''DSA Final Exam'') \<or>
      str_in ''cw'' (str_lower ''DSA Final Exam'') \<or> str_in ''course work'' (str_lower ''DSA Final Exam'')" by blast
  from exam_label_is_exam[OF this] h show ?thesis by blast
qed


text \<open>
  Claim C2, as amended. The label is not an exam label, its normalized lowercased form \<open>n\<close>
  is not empty, not a placeholder and not a key of the store. NIBM.py returns the code of
  the first key, in insertion order, that is a substring of \<open>n\<close> or has \<open>n\<close> as a substring.
  attendlessnibm.py returns the code of the first key that passes that test or is equal to
  \<open>n\<close> once the spaces of both are removed.
\<close>

theorem substring_fallback_first_key:
  assumes "\<not> is_exam_session l"
    and "n = str_lower (normalize_session_text l)"
    and "n \<noteq> []" and "n \<notin> set placeholders"
    and "map_of m n = None"
    and "i < length m"
  shows "(key_matches n (fst (m ! i)) \<and> (\<forall>j<i. \<not> key_matches n (fst (m ! j)))
            \<longrightarrow> get_module_code_for_session l m w = Inr (Some (snd (m ! i)), m, w))
       \<and> (key_matches_ui n (fst (m ! i)) \<and> (\<forall>j<i. \<not> key_matches_ui n (fst (m ! j)))
            \<longrightarrow> get_module_code_for_session_ui l m = Some (snd (m ! i)))"
proof (intro conjI impI)
  assume a: "key_matches n (fst (m ! i)) \<and> (\<forall>j<i. \<not> key_matches n (fst (m ! j)))"
  with assms(6) have "scan_keys n m = Some (snd (m ! i))"
    by (simp add: scan_keys_first)
  with assms show "get_module_code_for_session l m w = Inr (Some (snd (m ! i)), m, w)"
    by (simp add: get_module_code_for_session_def)
next
  assume a: "key_matches_ui n (fst (m ! i)) \<and> (\<forall>j<i. \<not> key_matches_ui n (fst (m ! j)))"
  with assms(6) have "scan_keys_ui n m = Some (snd (m ! i))"
    by (simp add: scan_keys_ui_first)
  with assms show "get_module_code_for_session_ui l m = Some (snd (m ! i))"
    by (simp add: get_module_code_for_session_ui_def)
qed

text \<open>
  C2 at the store \<open>data structures \<mapsto> DSA\<close> and a label that normalizes to
  \<open>data structures and algorithms\<close>: both programs answer DSA.
\<close>

theorem substring_fallback_first_key_witness:
  "get_module_code_for_session (Some ''Data Structures and Algorithms - Dr Perera'')
      [(''data structures'', ''DSA'')] \<lparr>stdin = [], mapping_file = Absent\<rparr>
     = Inr (Some ''DSA'', [(''data structures'', ''DSA'')], \<lparr>stdin = [], mapping_file = Absent\<rparr>)
   \<and> get_module_code_for_session_ui (Some ''Data Structures and Algorithms - Dr Perera'')
      [(''data structures'', ''DSA'')] = Some ''DSA''
   \<and> ''data structures and algorithms''
       = str_lower (normalize_session_text (Some ''Data Structures and Algorithms - Dr Perera''))"
proof -
  let ?l = "Some ''Data Structures and Algorithms - Dr Perera''"
  let ?n = "''data structures and algorithms''"
  let ?m = "[(''data structures'', ''DSA'')]"
  have h1: "\<not> is_exam_session ?l" by code_simp
  have h2: "?n = str_lower (normalize_session_text ?l)" by code_simp
  have h3: "?n \<noteq> []" by simp
  have h4: "?n \<notin> set placeholders" by code_simp
  have h5: "map_of ?m ?n = None" by code_simp
  have h6: "(0::nat) < length ?m" by simp
  have k: "key_matches ?n (fst (?m ! 0))" by code_simp
  then have k1: "key_matches ?n (fst (?m ! 0)) \<and> (\<forall>j<0. \<not> key_matches ?n (fst (?m ! j)))"
    by simp
  from k have k2: "key_matches_ui ?n (fst (?m ! 0)) \<and> (\<forall>j<0. \<not> key_matches_ui ?n (fst (?m ! j)))"
    by (simp add: key_matches_ui_def)
  from substring_fallback_first_key[OF h1 h2 h3 h4 h5 h6, of "\<lparr>stdin = [], mapping_file = Absent\<rparr>"] k1 k2 h2
  show ?thesis by simp
qed

text \<open>
  C2 as stated fails in attendlessnibm.py: the first key that is a substring of
  \<open>database systems\<close> is \<open>database\<close>, with code DB, and the program answers DBS, the code of
  the earlier key \<open>data base systems\<close>, which matches only once spaces are removed.
\<close>

theorem substring_fallback_ui_counterexample:
  "\<not> is_exam_session (Some ''Database Systems'')
   \<and> str_lower (normalize_session_text (Some ''Database Systems'')) = ''database systems''
   \<and> map_of [(''data base systems'', ''DBS''), (''database'', ''DB'')] ''database systems'' = None
   \<and> \<not> key_matches ''database systems'' ''data base systems''
   \<and> key_matches ''database systems'' ''database''
   \<and> get_module_code_for_session_ui (Some ''Database Systems'')
        [(''data base systems'', ''DBS''), (''database'', ''DB'')] = Some ''DBS''"
  by code_simp

text \<open>
  Claim C3, as amended. After \<open>record(key, DSA)\<close> on any store, a label that is not an exam
  label and whose normalized lowercased form is \<open>key\<close>, with \<open>key\<close> not empty and not a
  placeholder, is classified DSA by both programs.
\<close>

theorem recorded_key_resolves:
  assumes "\<not> is_exam_session l"
    and "str_lower (normalize_session_text l) = key"
    and "key \<noteq> []" and "key \<notin> set placeholders"
  shows "get_module_code_for_session l (fst (record_mapping m key ''DSA'' w)) w'
           = Inr (Some ''DSA'', fst (record_mapping m key ''DSA'' w), w')
       \<and> get_module_code_for_session_ui l (fst (record_mapping m key ''DSA'' w)) = Some ''DSA''"
  using assms
  by (simp add: get_module_code_for_session_def get_module_code_for_session_ui_def
      record_mapping_def Let_def map_of_dict_set)

text \<open>C3 at the label \<open>DSA Lecture - Dr Smith\<close>, recorded under \<open>dsa lecture\<close>.\<close>

theorem recorded_key_resolves_witness:
  "get_module_code_for_session (Some ''DSA Lecture - Dr Smith'')
      (fst (record_mapping [(''os'', ''OS'')] ''dsa lecture'' ''DSA'' \<lparr>stdin = [], mapping_file = Absent\<rparr>))
      \<lparr>stdin = [], mapping_file = Absent\<rparr>
     = Inr (Some ''DSA'',
        fst (record_mapping [(''os'', ''OS'')] ''dsa lecture'' ''DSA'' \<lparr>stdin = [], mapping_file = Absent\<rparr>),
        \<lparr>stdin = [], mapping_file = Absent\<rparr>)
   \<and> get_module_code_for_session_ui (Some ''DSA Lecture - Dr Smith'')
      (fst (record_mapping [(''os'', ''OS'')] ''dsa lecture'' ''DSA'' \<lparr>stdin = [], mapping_file = Absent\<rparr>))
     = Some ''DSA''
   \<and> str_lower (normalize_session_text (Some ''DSA Lecture - Dr Smith'')) = ''dsa lecture''"
proof -
  let ?l = "Some ''DSA Lecture - Dr Smith''"
  have h1: "\<not> is_exam_session ?l" by code_simp
  have h2: "str_lower (normalize_session_text ?l) = ''dsa lecture''" by code_simp
  have h3: "''dsa lecture'' \<noteq> []" by simp
  have h4: "''dsa lecture'' \<notin> set placeholders" by code_simp
  from recorded_key_resolves[OF h1 h2 h3 h4] h2 show ?thesis by blast
qed

text \<open>
  C3 as stated fails: \<open>course work\<close> is the normalized form of the label \<open>course  work\<close>
  (two spaces), which is not an exam label and so can be recorded; the label \<open>course work\<close>
  has the same normalized form and is classified EXAM, since the exam test comes first.
\<close>

theorem recorded_key_exam_counterexample:
  "str_lower (normalize_session_text (Some ''course work'')) = ''course work''
   \<and> get_module_code_for_session (Some ''course work'')
        (fst (record_mapping [] ''course work'' ''DSA'' \<lparr>stdin = [], mapping_file = Absent\<rparr>))
        \<lparr>stdin = [], mapping_file = Absent\<rparr>
      = Inr (Some ''EXAM'', [(''course work'', ''DSA'')], \<lparr>stdin = [], mapping_file = Absent\<rparr>)
   \<and> get_module_code_for_session_ui (Some ''course work'')
        (fst (record_mapping [] ''course work'' ''DSA'' \<lparr>stdin = [], mapping_file = Absent\<rparr>))
      = Some ''EXAM''"
  by code_simp

text \<open>
  Claim C4, as amended. With the two keys \<open>os\<close> and \<open>operating systems\<close> in either order,
  a label that is not an exam label and normalizes to \<open>operating systems\<close> gets the code
  stored under \<open>operating systems\<close>: the exact key is looked up before the scan.
\<close>

theorem exact_key_beats_insertion_order:
  assumes "\<not> is_exam_session l"
    and "str_lower (normalize_session_text l) = ''operating systems''"
    and "m = [(''os'', a), (''operating systems'', b)] \<or> m = [(''operating systems'', b), (''os'', a)]"
  shows "get_module_code_for_session l m w = Inr (Some b, m, w)
       \<and> get_module_code_for_session_ui l m = Some b"
proof -
  have p: "''operating systems'' \<notin> set placeholders" by (simp add: placeholders_def)
  from assms(3) have "map_of m ''operating systems'' = Some b" by auto
  with assms(1,2) p show ?thesis
    by (simp add: get_module_code_for_session_def get_module_code_for_session_ui_def)
qed

text \<open>C4 at the label \<open>Operating Systems - Lab\<close>, with \<open>os\<close> inserted first.\<close>

theorem exact_key_beats_insertion_order_witness:
  "get_module_code_for_session (Some ''Operating Systems - Lab'')
      [(''os'', ''OS''), (''operating systems'', ''OPS'')] \<lparr>stdin = [], mapping_file = Absent\<rparr>
     = Inr (Some ''OPS'', [(''os'', ''OS''), (''operating systems'', ''OPS'')],
            \<lparr>stdin = [], mapping_file = Absent\<rparr>)
   \<and> get_module_code_for_session_ui (Some ''Operating Systems - Lab'')
      [(''os'', ''OS''), (''operating systems'', ''OPS'')] = Some ''OPS''
   \<and> str_lower (normalize_session_text (Some ''Operating Systems - Lab'')) = ''operating systems''"
proof -
  let ?l = "Some ''Operating Systems - Lab''"
  let ?m = "[(''os'', ''OS''), (''operating systems'', ''OPS'')]"
  have h1: "\<not> is_exam_session ?l" by code_simp
  have h2: "str_lower (normalize_session_text ?l) = ''operating systems''" by code_simp
  have h3: "?m = [(''os'', ''OS''), (''operating systems'', ''OPS'')]
          \<or> ?m = [(''operating systems'', ''OPS''), (''os'', ''OS'')]" by simp
  from exact_key_beats_insertion_order[OF h1 h2 h3] h2 show ?thesis by blast
qed

text \<open>
  C4 as stated fails when \<open>os\<close> was inserted first: the answer is OPS, the code of the key
  inserted second, not OS.
\<close>

theorem first_inserted_key_counterexample:
  "\<not> is_exam_session (Some ''Operating Systems'')
   \<and> str_lower (normalize_session_text (Some ''Operating Systems'')) = ''operating systems''
   \<and> get_module_code_for_session (Some ''Operating Systems'')
        [(''os'', ''OS''), (''operating systems'', ''OPS'')] \<lparr>stdin = [], mapping_file = Absent\<rparr>
      = Inr (Some ''OPS'', [(''os'', ''OS''), (''operating systems'', ''OPS'')],
             \<lparr>stdin = [], mapping_file = Absent\<rparr>)
   \<and> get_module_code_for_session_ui (Some ''Operating Systems'')
        [(''os'', ''OS''), (''operating systems'', ''OPS'')] = Some ''OPS''"
  by code_simp

text \<open>
  Claim C6, as amended. For a label that is not an exam label, with normalized lowercased
  form \<open>n\<close>, the scan over the keys returns a code \<open>c\<close> exactly when the first key, in
  insertion order, that passes the loop's test stores \<open>c\<close>; this holds for the test of
  NIBM.py and for the two tests of attendlessnibm.py, and for every store. When \<open>n\<close> is not
  empty, not a placeholder and not a key, that code is the answer of both programs, NIBM.py
  leaving store and world as they were. So the scan returns EXAM exactly when the first
  matching key stores EXAM, and never for a store none of whose values is EXAM.
\<close>

theorem fallback_returns_first_matching_code:
  assumes "\<not> is_exam_session l" and "n = str_lower (normalize_session_text l)"
  shows "(scan_keys n m = Some c \<longleftrightarrow>
            (\<exists>i<length m. key_matches n (fst (m ! i)) \<and> (\<forall>j<i. \<not> key_matches n (fst (m ! j)))
               \<and> snd (m ! i) = c))
       \<and> (scan_keys_ui n m = Some c \<longleftrightarrow>
            (\<exists>i<length m. key_matches_ui n (fst (m ! i)) \<and> (\<forall>j<i. \<not> key_matches_ui n (fst (m ! j)))
               \<and> snd (m ! i) = c))
       \<and> (n \<noteq> [] \<and> n \<notin> set placeholders \<and> map_of m n = None \<longrightarrow>
            get_module_code_for_session_ui l m = scan_keys_ui n m
          \<and> (scan_keys n m = Some c \<longrightarrow> get_module_code_for_session l m w = Inr (Some c, m, w)))
       \<and> (''EXAM'' \<notin> snd ` set m \<longrightarrow>
            scan_keys n m \<noteq> Some ''EXAM'' \<and> scan_keys_ui n m \<noteq> Some ''EXAM''
          \<and> get_module_code_for_session_ui l m \<noteq> Some ''EXAM'')"
proof -
  have a: "scan_keys n m = Some c \<longleftrightarrow>
            (\<exists>i<length m. key_matches n (fst (m ! i)) \<and> (\<forall>j<i. \<not> key_matches n (fst (m ! j)))
               \<and> snd (m ! i) = c)"
    by (rule scan_keys_iff)
  have b: "scan_keys_ui n m = Some c \<longleftrightarrow>
            (\<exists>i<length m. key_matches_ui n (fst (m ! i)) \<and> (\<forall>j<i. \<not> key_matches_ui n (fst (m ! j)))
               \<and> snd (m ! i) = c)"
    by (rule scan_keys_ui_iff)
  have c: "n \<noteq> [] \<and> n \<notin> set placeholders \<and> map_of m n = None \<longrightarrow>
            get_module_code_for_session_ui l m = scan_keys_ui n m
          \<and> (scan_keys n m = Some c \<longrightarrow> get_module_code_for_session l m w = Inr (Some c, m, w))"
    using get_module_code_for_session_ui_scan[OF assms, of m]
      get_module_code_for_session_scan[OF assms, of m c w] by blast
  have d: "''EXAM'' \<notin> snd ` set m \<longrightarrow>
            scan_keys n m \<noteq> Some ''EXAM'' \<and> scan_keys_ui n m \<noteq> Some ''EXAM''
          \<and> get_module_code_for_session_ui l m \<noteq> Some ''EXAM''"
  proof
    assume e: "''EXAM'' \<notin> snd ` set m"
    have d1: "scan_keys n m \<noteq> Some ''EXAM''"
      using e scan_keys_Some[of n m "''EXAM''"] by force
    have d2: "scan_keys_ui n m \<noteq> Some ''EXAM''"
      using e scan_keys_ui_Some[of n m "''EXAM''"] by force
    have d3: "map_of m n \<noteq> Some ''EXAM''"
      using e map_of_SomeD[of m n "''EXAM''"] by force
    from assms d2 d3 have "get_module_code_for_session_ui l m \<noteq> Some ''EXAM''"
      by (auto simp: get_module_code_for_session_ui_def Let_def split: option.splits)
    with d1 d2 show "scan_keys n m \<noteq> Some ''EXAM'' \<and> scan_keys_ui n m \<noteq> Some ''EXAM''
          \<and> get_module_code_for_session_ui l m \<noteq> Some ''EXAM''" by blast
  qed
  from a b c d show ?thesis by blast
qed

text \<open>
  C6 at the label \<open>Revision\<close> and the store \<open>foo \<mapsto> EXAM, revision session \<mapsto> DSA\<close>: the
  first matching key is the second one, and both programs answer DSA although the store
  holds EXAM; and at the store \<open>revision session \<mapsto> DSA\<close>, which holds no EXAM.
\<close>

theorem fallback_returns_first_matching_code_witness:
  "\<not> is_exam_session (Some ''Revision'')
   \<and> str_lower (normalize_session_text (Some ''Revision'')) = ''revision''
   \<and> map_of [(''foo'', ''EXAM''), (''revision session'', ''DSA'')] ''revision'' = None
   \<and> scan_keys ''revision'' [(''foo'', ''EXAM''), (''revision session'', ''DSA'')] = Some ''DSA''
   \<and> scan_keys_ui ''revision'' [(''foo'', ''EXAM''), (''revision session'', ''DSA'')] = Some ''DSA''
   \<and> get_module_code_for_session_ui (Some ''Revision'')
        [(''foo'', ''EXAM''), (''revision session'', ''DSA'')] = Some ''DSA''
   \<and> get_module_code_for_session (Some ''Revision'')
        [(''foo'', ''EXAM''), (''revision session'', ''DSA'')] \<lparr>stdin = [], mapping_file = Absent\<rparr>
      = Inr (Some ''DSA'', [(''foo'', ''EXAM''), (''revision session'', ''DSA'')],
             \<lparr>stdin = [], mapping_file = Absent\<rparr>)
   \<and> ''EXAM'' \<notin> snd ` set [(''revision session'', ''DSA'')]
   \<and> get_module_code_for_session_ui (Some ''Revision'') [(''revision session'', ''DSA'')]
        \<noteq> Some ''EXAM''"
proof -
  let ?l = "Some ''Revision''"
  let ?n = "''revision''"
  let ?m = "[(''foo'', ''EXAM''), (''revision session'', ''DSA'')]"
  let ?m' = "[(''revision session'', ''DSA'')]"
  let ?w = "\<lparr>stdin = [], mapping_file = Absent\<rparr>"
  have h1: "\<not> is_exam_session ?l" by code_simp
  have h2: "?n = str_lower (normalize_session_text ?l)" by code_simp
  have h3: "?n \<noteq> []" by simp
  have h4: "?n \<notin> set placeholders" by code_simp
  have h5: "map_of ?m ?n = None" by code_simp
  have h6: "''EXAM'' \<notin> snd ` set ?m'" by simp
  have k0: "\<not> key_matches ?n ''foo''" by code_simp
  have k1: "key_matches ?n ''revision session''" by code_simp
  have u0: "\<not> key_matches_ui ?n ''foo''" by code_simp
  have u1: "key_matches_ui ?n ''revision session''" by code_simp
  have e1: "\<exists>i<length ?m. key_matches ?n (fst (?m ! i)) \<and> (\<forall>j<i. \<not> key_matches ?n (fst (?m ! j)))
               \<and> snd (?m ! i) = ''DSA''"
    using k0 k1 by (intro exI[of _ 1]) simp
  have e2: "\<exists>i<length ?m. key_matches_ui ?n (fst (?m ! i))
               \<and> (\<forall>j<i. \<not> key_matches_ui ?n (fst (?m ! j))) \<and> snd (?m ! i) = ''DSA''"
    using u0 u1 by (intro exI[of _ 1]) simp
  note t = fallback_returns_first_matching_code[OF h1 h2, of ?m "''DSA''" ?w]
  from t e1 have s1: "scan_keys ?n ?m = Some ''DSA''" by blast
  from t e2 have s2: "scan_keys_ui ?n ?m = Some ''DSA''" by blast
  from t h3 h4 h5 s2 have s3: "get_module_code_for_session_ui ?l ?m = Some ''DSA''" by simp
  from t h3 h4 h5 s1 have s4: "get_module_code_for_session ?l ?m ?w = Inr (Some ''DSA'', ?m, ?w)"
    by blast
  from fallback_returns_first_matching_code[OF h1 h2, of ?m' "''DSA''" ?w] h6
  have s5: "get_module_code_for_session_ui ?l ?m' \<noteq> Some ''EXAM''" by blast
  from h1 h2 h5 h6 s1 s2 s3 s4 s5 show ?thesis by simp
qed

text \<open>
  C6 as stated fails for a store with the value EXAM under a matching key: the label
  \<open>Revision\<close> is not an exam label, is no key of the store, and the scan returns EXAM, the
  code of the key \<open>revision session\<close>.
\<close>

theorem fallback_returns_stored_exam_counterexample:
  "\<not> is_exam_session (Some ''Revision'')
   \<and> map_of [(''revision session'', ''EXAM'')] (str_lower (normalize_session_text (Some ''Revision''))) = None
   \<and> scan_keys (str_lower (normalize_session_text (Some ''Revision''))) [(''revision session'', ''EXAM'')]
       = Some ''EXAM''
   \<and> scan_keys_ui (str_lower (normalize_session_text (Some ''Revision''))) [(''revision session'', ''EXAM'')]
       = Some ''EXAM''
   \<and> get_module_code_for_session_ui (Some ''Revision'') [(''revision session'', ''EXAM'')] = Some ''EXAM''"
  by code_simp

text \<open>
  Claim C10, as amended. In attendlessnibm.py, for a label that is not an exam label, whose
  normalized lowercased form \<open>n\<close> is not empty, not a placeholder and not a key, and a stored
  key at position \<open>i\<close> equal to \<open>n\<close> once the spaces of both are removed (whether or not one
  is a substring of the other): the answer is the code of the first key, at or before
  position \<open>i\<close>, that passes one of the loop's two tests, and it is the code of the key at
  \<open>i\<close> when no earlier key passes them.
\<close>

theorem ui_space_insensitive_match:
  assumes "\<not> is_exam_session l"
    and "n = str_lower (normalize_session_text l)"
    and "n \<noteq> []" and "n \<notin> set placeholders"
    and "map_of m n = None"
    and "i < length m"
    and "remove_spaces (str_lower (fst (m ! i))) = remove_spaces n"
  shows "(\<exists>j\<le>i. key_matches_ui n (fst (m ! j)) \<and> (\<forall>j'<j. \<not> key_matches_ui n (fst (m ! j')))
            \<and> get_module_code_for_session_ui l m = Some (snd (m ! j)))
       \<and> ((\<forall>j<i. \<not> key_matches_ui n (fst (m ! j)))
            \<longrightarrow> get_module_code_for_session_ui l m = Some (snd (m ! i)))"
proof -
  have r: "get_module_code_for_session_ui l m = scan_keys_ui n m"
    using assms(1-5) by (rule get_module_code_for_session_ui_scan)
  have km: "key_matches_ui n (fst (m ! i))"
    using assms(7) by (simp add: key_matches_ui_def)
  from first_index[of "\<lambda>j. key_matches_ui n (fst (m ! j))", OF km]
  obtain j where j: "j \<le> i" "key_matches_ui n (fst (m ! j))"
    "\<forall>j'<j. \<not> key_matches_ui n (fst (m ! j'))" by blast
  from j(1) assms(6) have jl: "j < length m" by simp
  from scan_keys_ui_first[OF jl j(2) j(3)] r
  have "get_module_code_for_session_ui l m = Some (snd (m ! j))" by simp
  with j have first: "\<exists>j\<le>i. key_matches_ui n (fst (m ! j)) \<and> (\<forall>j'<j. \<not> key_matches_ui n (fst (m ! j')))
            \<and> get_module_code_for_session_ui l m = Some (snd (m ! j))" by blast
  have "(\<forall>j<i. \<not> key_matches_ui n (fst (m ! j)))
            \<longrightarrow> get_module_code_for_session_ui l m = Some (snd (m ! i))"
    using scan_keys_ui_first[OF assms(6) km] r by simp
  with first show ?thesis by blast
qed

text \<open>
  C10 at the store \<open>networks \<mapsto> NET, data base systems \<mapsto> DBS\<close> and the label
  \<open>Database Systems\<close>: the second key and the label are not substrings of one another, the
  first key passes no test, attendlessnibm.py answers DBS, and the scan of NIBM.py finds
  nothing.
\<close>

theorem ui_space_insensitive_match_witness:
  "\<not> str_in (str_lower ''data base systems'') ''database systems''
   \<and> \<not> str_in ''database systems'' (str_lower ''data base systems'')
   \<and> remove_spaces (str_lower ''data base systems'') = remove_spaces ''database systems''
   \<and> \<not> key_matches_ui ''database systems'' ''networks''
   \<and> get_module_code_for_session_ui (Some ''Database Systems'')
        [(''networks'', ''NET''), (''data base systems'', ''DBS'')] = Some ''DBS''
   \<and> scan_keys ''database systems'' [(''networks'', ''NET''), (''data base systems'', ''DBS'')] = None"
proof -
  let ?l = "Some ''Database Systems''"
  let ?n = "''database systems''"
  let ?m = "[(''networks'', ''NET''), (''data base systems'', ''DBS'')]"
  have h1: "\<not> is_exam_session ?l" by code_simp
  have h2: "?n = str_lower (normalize_session_text ?l)" by code_simp
  have h3: "?n \<noteq> []" by simp
  have h4: "?n \<notin> set placeholders" by code_simp
  have h5: "map_of ?m ?n = None" by code_simp
  have h6: "(1::nat) < length ?m" by simp
  have h7: "remove_spaces (str_lower (fst (?m ! 1))) = remove_spaces ?n" by code_simp
  have h8: "\<not> key_matches_ui ?n ''networks''" by code_simp
  have a: "\<not> str_in (str_lower ''data base systems'') ?n" by code_simp
  have b: "\<not> str_in ?n (str_lower ''data base systems'')" by code_simp
  have c: "scan_keys ?n ?m = None" by code_simp
  have d: "remove_spaces (str_lower ''data base systems'') = remove_spaces ?n" by code_simp
  have e: "\<forall>j<1. \<not> key_matches_ui ?n (fst (?m ! j))" using h8 by simp
  from ui_space_insensitive_match[OF h1 h2 h3 h4 h5 h6 h7] e
  have "get_module_code_for_session_ui ?l ?m = Some (snd (?m ! 1))" by blast
  then have "get_module_code_for_session_ui ?l ?m = Some ''DBS''" by simp
  with a b c d h8 show ?thesis by blast
qed

text \<open>
  C10 as stated fails in two ways. With the store \<open>data \<mapsto> X, data base systems \<mapsto> DBS\<close>
  the label \<open>Database Systems\<close> equals the second key once spaces are removed, and the answer
  is X: the earlier key \<open>data\<close> is a substring of the label. With a store whose only key is
  one space, the label \<open>-\<close> normalizes to the empty text, which equals that key once spaces
  are removed, and the answer is \<open>None\<close>.
\<close>

theorem ui_space_insensitive_earlier_key_counterexample:
  "\<not> is_exam_session (Some ''Database Systems'')
   \<and> str_lower (normalize_session_text (Some ''Database Systems'')) = ''database systems''
   \<and> ''database systems'' \<notin> set placeholders
   \<and> map_of [(''data'', ''X''), (''data base systems'', ''DBS'')] ''database systems'' = None
   \<and> remove_spaces (str_lower ''data base systems'') = remove_spaces ''database systems''
   \<and> get_module_code_for_session_ui (Some ''Database Systems'')
        [(''data'', ''X''), (''data base systems'', ''DBS'')] = Some ''X''
   \<and> \<not> is_exam_session (Some ''-'')
   \<and> str_lower (normalize_session_text (Some ''-'')) = []
   \<and> map_of [('' '', ''X'')] [] = None
   \<and> remove_spaces (str_lower '' '') = remove_spaces []
   \<and> get_module_code_for_session_ui (Some ''-'') [('' '', ''X'')] = None"
  by code_simp

section \<open>Loading the mapping store\<close>

text \<open>
  Claim C7. With no file both programs return the empty store. With a file whose text is
  not JSON, attendlessnibm.py returns the empty store, and NIBM.py raises
  \<open>JSONDecodeError\<close>: its \<open>except\<close> clause names \<open>FileNotFoundError\<close> only.
\<close>

theorem load_module_mappings_corrupt_raises:
  "load_module_mappings Absent = Inr []
   \<and> load_module_mappings Corrupt = Inl JSONDecodeError
   \<and> load_module_mappings_ui Absent = Inr []
   \<and> load_module_mappings_ui Corrupt = Inr []"
  by (simp add: load_module_mappings_def load_module_mappings_ui_def)

text \<open>
  Claim C9. A sheet with three columns and no row, or with no row that has a date, is not
  loaded: \<open>df.iloc[0]\<close> raises \<open>IndexError\<close> and \<open>load_schedule\<close> returns \<open>None\<close>, as it does
  for a sheet with two columns. A sheet whose first dated row reads DATE is returned
  without that row.
\<close>

theorem load_schedule_no_dated_row_fails:
  "load_schedule_body \<lparr>columns = [''Date'', ''Morning'', ''Afternoon''], rows = []\<rparr> = Inl IndexError
   \<and> load_schedule \<lparr>columns = [''Date'', ''Morning'', ''Afternoon''], rows = []\<rparr> = None
   \<and> load_schedule \<lparr>columns = [''Day'', ''AM'', ''PM''], rows = [[NaN, Text ''DSA Lecture'', NaN]]\<rparr>
       = None
   \<and> load_schedule_body \<lparr>columns = [''Date'', ''Morning''], rows = [[Text ''Mon'', Text ''DSA'']]\<rparr>
       = Inl ValueError
   \<and> load_schedule
        \<lparr>columns = [''Date'', ''Morning'', ''Afternoon''],
         rows = [[Text ''DATE'', Text ''AM'', Text ''PM''], [Text ''Mon'', Text ''DSA'', NaN]]\<rparr>
       = Some \<lparr>columns = [''Date'', ''Morning'', ''Afternoon''], rows = [[Text ''Mon'', Text ''DSA'', NaN]]\<rparr>"
  by code_simp

section \<open>Holiday allowance at 80 percent\<close>




section \<open>Normalizing twice\<close>

text \<open>
  Claim C5, as amended. For every label \<open>x\<close>, missing or not, normalizing the normalized
  text gives it back exactly when the removal of an instructor, the removal of a
  tutorial or practical indicator and the removal of a trailing dash each leave the
  normalized text as it is. The whitespace steps never stand in the way: a normalized text
  has single spaces and no whitespace at its ends.
\<close>

theorem normalize_twice:
  "normalize_session_text (Some (normalize_session_text x)) = normalize_session_text x
   \<longleftrightarrow>
     remove_instructor (normalize_session_text x) = normalize_session_text x
   \<and> remove_qualifier (normalize_session_text x) = normalize_session_text x
   \<and> re_sub False pat_trailing_dash [] (normalize_session_text x) = normalize_session_text x"
proof -
  define y where "y = normalize_session_text x"
  define a1 where "a1 = remove_instructor y"
  define a2 where "a2 = remove_qualifier a1"
  define a3 where "a3 = re_sub False pat_trailing_dash [] a2"
  define a4 where "a4 = re_sub False pat_spaces '' '' a3"
  have sy: "str_strip y = y" and cy: "re_sub False pat_spaces '' '' y = y"
    using normalize_tidy[of x] by (simp_all add: y_def)
  have n: "normalize_session_text (Some y) = str_strip a4"
    by (simp add: normalize_session_text_def clean_up_def sy a1_def a2_def a3_def a4_def)
  have l1: "length a1 \<le> length y" unfolding a1_def by (rule remove_instructor_length)
  have l2: "length a2 \<le> length a1" unfolding a2_def by (rule remove_qualifier_length)
  have l3: "length a3 \<le> length a2" unfolding a3_def by (rule re_sub_del_length)
  have l4: "length a4 \<le> length a3" unfolding a4_def by (rule collapse_length)
  have l5: "length (str_strip a4) \<le> length a4" by (rule str_strip_length)
  have "normalize_session_text (Some y) = y
        \<longleftrightarrow> remove_instructor y = y \<and> remove_qualifier y = y
            \<and> re_sub False pat_trailing_dash [] y = y"
  proof
    assume "normalize_session_text (Some y) = y"
    with n have "length (str_strip a4) = length y" by simp
    with l1 l2 l3 l4 l5 have e1: "length a1 = length y" and e2: "length a2 = length a1"
      and e3: "length a3 = length a2" by simp_all
    from e1 have b1: "remove_instructor y = y" unfolding a1_def by (rule remove_instructor_id)
    from e2 have "remove_qualifier a1 = a1" unfolding a2_def by (rule remove_qualifier_id)
    with b1 have b2: "remove_qualifier y = y" by (simp add: a1_def)
    from e3 have "re_sub False pat_trailing_dash [] a2 = a2" unfolding a3_def by (rule re_sub_del_id)
    with b1 b2 have b3: "re_sub False pat_trailing_dash [] y = y" by (simp add: a2_def a1_def)
    from b1 b2 b3 show "remove_instructor y = y \<and> remove_qualifier y = y
            \<and> re_sub False pat_trailing_dash [] y = y" by blast
  next
    assume h: "remove_instructor y = y \<and> remove_qualifier y = y
            \<and> re_sub False pat_trailing_dash [] y = y"
    then have "a4 = y" by (simp add: a1_def a2_def a3_def a4_def cy)
    with n sy show "normalize_session_text (Some y) = y" by simp
  qed
  then show ?thesis by (simp only: y_def)
qed

text \<open>
  C5 at the label \<open>DSA Lecture - Dr Smith\<close>, normalized to \<open>DSA Lecture\<close>, which the three
  removals leave alone, and at the missing label, normalized to the empty text.
\<close>

theorem normalize_twice_witness:
  "normalize_session_text (Some ''DSA Lecture - Dr Smith'') = ''DSA Lecture''
   \<and> remove_instructor ''DSA Lecture'' = ''DSA Lecture''
   \<and> remove_qualifier ''DSA Lecture'' = ''DSA Lecture''
   \<and> re_sub False pat_trailing_dash [] ''DSA Lecture'' = ''DSA Lecture''
   \<and> normalize_session_text (Some (normalize_session_text (Some ''DSA Lecture - Dr Smith'')))
       = normalize_session_text (Some ''DSA Lecture - Dr Smith'')
   \<and> normalize_session_text (Some (normalize_session_text None)) = normalize_session_text None"
proof -
  let ?x = "Some ''DSA Lecture - Dr Smith''"
  have y: "normalize_session_text ?x = ''DSA Lecture''" by code_simp
  have h1: "remove_instructor ''DSA Lecture'' = ''DSA Lecture''" by code_simp
  have h2: "remove_qualifier ''DSA Lecture'' = ''DSA Lecture''" by code_simp
  have h3: "re_sub False pat_trailing_dash [] ''DSA Lecture'' = ''DSA Lecture''" by code_simp
  have z: "normalize_session_text None = []" by (simp add: normalize_session_text_def)
  have g1: "remove_instructor [] = []" by code_simp
  have g2: "remove_qualifier [] = []" by code_simp
  have g3: "re_sub False pat_trailing_dash [] [] = []" by code_simp
  from normalize_twice[of ?x] y h1 h2 h3
  have a: "normalize_session_text (Some (normalize_session_text ?x)) = normalize_session_text ?x"
    by simp
  from normalize_twice[of None] z g1 g2 g3
  have b: "normalize_session_text (Some (normalize_session_text None)) = normalize_session_text None"
    by simp
  from y h1 h2 h3 a b show ?thesis by blast
qed

text \<open>
  C5 as stated fails: each pattern is applied once and removes one suffix, so
  \<open>DSA lab lab\<close> is normalized to \<open>DSA lab\<close>, and that to \<open>DSA\<close>.
\<close>

theorem normalize_repeated_qualifier_counterexample:
  "normalize_session_text (Some ''DSA lab lab'') = ''DSA lab''
   \<and> normalize_session_text (Some (normalize_session_text (Some ''DSA lab lab''))) = ''DSA''"
  by code_simp

end
